theory Spec2Isabelle
  imports Complex_Main "HOL-Library.Char_ord" "HOL-Library.List_Lexorder" "HOL-Library.Multiset"
begin

section \<open>Data model of window-counter.py\<close>

text \<open>
  A row of the coordinate table read by \<open>parse_coordinates\<close>: the five columns
  \<open>chromosome\<close>, \<open>start\<close>, \<open>end\<close>, \<open>id\<close>, \<open>type\<close>. The last three names are
  suffixed, since \<open>end\<close>, \<open>id\<close> and \<open>type\<close> are taken in Isabelle. Coordinates are
  integers, compared with the unbounded Python integers of the window bounds, hence
  \<open>int\<close>. The table itself is the list of its rows, in file order.
\<close>

record feature =
  chromosome :: string
  start :: int
  end_pos :: int
  feature_id :: string
  feature_type :: string

text \<open>
  The dictionary built by \<open>parse_chr_lengths\<close>, as an association list in insertion
  order. A Python dictionary holds every key once, so a well-formed value of this type
  has \<open>distinct (map fst chr_lengths)\<close>; the lookup \<open>chr_lengths[chrom]\<close> is
  \<open>map_of\<close>. Chromosome names are compared as Python compares \<open>str\<close>: character by
  character, a proper prefix first, which is the lexicographic order on \<open>char list\<close>
  (on the bytes of UTF-8 that order is the order of the code points).
\<close>

type_synonym chr_lengths = "(string \<times> int) list"

text \<open>
  One dictionary appended to \<open>results\<close>: the keys \<open>chromosome\<close> (here
  \<open>out_chromosome\<close>, the name being taken by the input row), \<open>window_start\<close>,
  \<open>window_end\<close> and \<open>feature_count\<close>.
\<close>

record window_count =
  out_chromosome :: string
  window_start :: int
  window_end :: int
  feature_count :: int

text \<open>
  The exceptions of the counting function: a failed dictionary lookup and a division by
  zero. The loop looks up only keys of the dictionary, so the first never happens.
\<close>

datatype error = KeyError | ZeroDivisionError

section \<open>count\_features\_in\_windows\<close>

text \<open>
  \<open>len(chrom_data[(chrom_data['start'] >= window_start) & (chrom_data['start'] < window_end)])\<close>
\<close>

definition count_starts :: "feature list \<Rightarrow> int \<Rightarrow> int \<Rightarrow> int" where
  "count_starts chrom_data ws we =
     int (length (filter (\<lambda>r. start r \<ge> ws \<and> start r < we) chrom_data))"

text \<open>The body of the loop \<open>for i in range(num_full_windows)\<close>.\<close>

definition full_window :: "feature list \<Rightarrow> string \<Rightarrow> int \<Rightarrow> int \<Rightarrow> window_count" where
  "full_window chrom_data chrom window_size i =
     (let ws = i * window_size;
          we = (i + 1) * window_size;
          count = count_starts chrom_data ws we
      in \<lparr>out_chromosome = chrom, window_start = ws, window_end = we, feature_count = count\<rparr>)"

text \<open>The body of \<open>if remaining_bases > 0\<close>: the last, partial window.\<close>

definition partial_window ::
  "feature list \<Rightarrow> string \<Rightarrow> int \<Rightarrow> int \<Rightarrow> int \<Rightarrow> window_count" where
  "partial_window chrom_data chrom chr_length window_size num_full_windows =
     (let ws = num_full_windows * window_size;
          we = chr_length;
          count = count_starts chrom_data ws we
      in \<lparr>out_chromosome = chrom, window_start = ws, window_end = we, feature_count = count\<rparr>)"

text \<open>
  What one pass of the chromosome loop appends to \<open>results\<close>, once the two divisions
  have succeeded (\<open>window_size \<noteq> 0\<close>). Python's \<open>//\<close> and \<open>%\<close> round towards minus
  infinity, as \<open>div\<close> and \<open>mod\<close> on \<open>int\<close> do; \<open>range(n)\<close> is empty for \<open>n \<le> 0\<close>,
  as \<open>[0..<nat n]\<close> is.
\<close>

definition chromosome_windows ::
  "feature list \<Rightarrow> string \<Rightarrow> int \<Rightarrow> int \<Rightarrow> window_count list" where
  "chromosome_windows coordinates_df chrom chr_length window_size =
     (let chrom_data = filter (\<lambda>r. chromosome r = chrom) coordinates_df;
          num_full_windows = chr_length div window_size;
          remaining_bases = chr_length mod window_size
      in map (\<lambda>i. full_window chrom_data chrom window_size (int i)) [0..<nat num_full_windows]
         @ (if remaining_bases > 0
            then [partial_window chrom_data chrom chr_length window_size num_full_windows]
            else []))"

text \<open>
  The loop \<open>for chrom in sorted(chr_lengths.keys())\<close>, with \<open>results\<close> as accumulator.
  The lookup comes first, then the division, which raises for a zero window size.
\<close>

fun process_chromosomes ::
  "feature list \<Rightarrow> chr_lengths \<Rightarrow> int \<Rightarrow> string list \<Rightarrow> window_count list
     \<Rightarrow> error + window_count list" where
  "process_chromosomes coordinates_df chr_lengths window_size [] results = Inr results"
| "process_chromosomes coordinates_df chr_lengths window_size (chrom # rest) results =
     (case map_of chr_lengths chrom of
        None \<Rightarrow> Inl KeyError
      | Some chr_length \<Rightarrow>
          if window_size = 0 then Inl ZeroDivisionError
          else process_chromosomes coordinates_df chr_lengths window_size rest
                 (results @ chromosome_windows coordinates_df chrom chr_length window_size))"

definition count_features_in_windows ::
  "feature list \<Rightarrow> chr_lengths \<Rightarrow> int \<Rightarrow> error + window_count list" where
  "count_features_in_windows coordinates_df chr_lengths window_size =
     process_chromosomes coordinates_df chr_lengths window_size
       (sort (map fst chr_lengths)) []"

section \<open>The self-test scenario and the vocabulary of the properties\<close>

text \<open>
  The rows and the dictionary that \<open>test_window_counting\<close> builds, with the
  dictionary in its insertion order.
\<close>

definition row :: "string \<Rightarrow> int \<Rightarrow> int \<Rightarrow> string \<Rightarrow> string \<Rightarrow> feature" where
  "row c s e i t =
     \<lparr>chromosome = c, start = s, end_pos = e, feature_id = i, feature_type = t\<rparr>"

definition test_data :: "feature list" where
  "test_data =
     [row ''Chr6'' 1000 2000 ''ID1'' ''TYPE1'',
      row ''Chr6'' 2500 3500 ''ID2'' ''TYPE1'',
      row ''Chr6'' 9500 11000 ''ID3'' ''TYPE1'',
      row ''Chr6'' 9750 10500 ''ID4'' ''TYPE1'',
      row ''Chr6'' 15000 16000 ''ID5'' ''TYPE1'',
      row ''Chr7'' 500 1500 ''ID6'' ''TYPE1'',
      row ''Chr7'' 11000 12000 ''ID7'' ''TYPE1'']"

definition test_chr_lengths :: chr_lengths where
  "test_chr_lengths = [(''Chr6'', 20000), (''Chr7'', 15000)]"

text \<open>
  \<open>results[results['chromosome'] == chrom]\<close>, as the self-test selects the windows of
  one chromosome from the output, in output order.
\<close>

definition chr_results :: "string \<Rightarrow> window_count list \<Rightarrow> window_count list" where
  "chr_results chrom results = filter (\<lambda>w. out_chromosome w = chrom) results"

text \<open>
  A row is counted in a window when it passes the chromosome mask and the two masks on
  \<open>start\<close> for that window's bounds.
\<close>

definition counted_in :: "feature \<Rightarrow> window_count \<Rightarrow> bool" where
  "counted_in r w \<longleftrightarrow>
     chromosome r = out_chromosome w \<and> window_start w \<le> start r \<and> start r < window_end w"

text \<open>The number of rows of a chromosome whose start lies in \<open>[lo, hi)\<close>.\<close>

definition starts_within :: "feature list \<Rightarrow> string \<Rightarrow> int \<Rightarrow> int \<Rightarrow> int" where
  "starts_within coordinates_df chrom lo hi =
     int (length (filter (\<lambda>r. chromosome r = chrom \<and> lo \<le> start r \<and> start r < hi)
                         coordinates_df))"

text \<open>
  A list of windows tiles \<open>[a, b)\<close>: the first starts at \<open>a\<close>, every window is a
  non-empty interval that ends where the next one starts, and the last ends at \<open>b\<close>.
\<close>

fun tiles :: "int \<Rightarrow> window_count list \<Rightarrow> int \<Rightarrow> bool" where
  "tiles a [] b \<longleftrightarrow> a = b"
| "tiles a (w # ws) b \<longleftrightarrow>
     window_start w = a \<and> a < window_end w \<and> tiles (window_end w) ws b"

text \<open>The order of the output table: by chromosome name, then by window start.\<close>

definition window_before :: "window_count \<Rightarrow> window_count \<Rightarrow> bool" where
  "window_before v w \<longleftrightarrow>
     out_chromosome v < out_chromosome w
     \<or> (out_chromosome v = out_chromosome w \<and> window_start v < window_start w)"

section \<open>The chromosome loop\<close>

lemma process_chromosomes_nonzero:
  "window_size \<noteq> 0 \<Longrightarrow> set ks \<subseteq> fst ` set cl \<Longrightarrow>
   process_chromosomes df cl window_size ks results =
     Inr (results @ concat (map (\<lambda>c. chromosome_windows df c (the (map_of cl c)) window_size) ks))"
proof (induction ks arbitrary: results)
  case Nil
  then show ?case by simp
next
  case (Cons k ks)
  from Cons.prems have "k \<in> fst ` set cl" by simp
  then obtain L where L: "map_of cl k = Some L"
    by (metis domD dom_map_of_conv_image_fst)
  from Cons.prems have "set ks \<subseteq> fst ` set cl" by simp
  with Cons.IH Cons.prems(1) L show ?case by simp
qed

lemma process_chromosomes_zero:
  "ks \<noteq> [] \<Longrightarrow> set ks \<subseteq> fst ` set cl \<Longrightarrow>
   process_chromosomes df cl 0 ks results = Inl ZeroDivisionError"
proof (cases ks)
  case Nil
  assume "ks \<noteq> []" with Nil show ?thesis by simp
next
  case (Cons k ks')
  assume "set ks \<subseteq> fst ` set cl"
  with Cons have "k \<in> fst ` set cl" by simp
  then obtain L where "map_of cl k = Some L"
    by (metis domD dom_map_of_conv_image_fst)
  with Cons show ?thesis by simp
qed

lemma count_features_nonzero:
  "window_size \<noteq> 0 \<Longrightarrow>
   count_features_in_windows df cl window_size =
     Inr (concat (map (\<lambda>c. chromosome_windows df c (the (map_of cl c)) window_size)
                      (sort (map fst cl))))"
  unfolding count_features_in_windows_def
  by (subst process_chromosomes_nonzero) simp_all

lemma count_features_zero:
  "count_features_in_windows df cl 0 = (if cl = [] then Inr [] else Inl ZeroDivisionError)"
proof (cases "cl = []")
  case True
  then show ?thesis by (simp add: count_features_in_windows_def)
next
  case False
  then have "sort (map fst cl) \<noteq> []"
    by (metis length_0_conv length_map length_sort)
  then show ?thesis using False
    unfolding count_features_in_windows_def
    by (subst process_chromosomes_zero) simp_all
qed

text \<open>The loop reads the table only through what each pass appends.\<close>

lemma process_chromosomes_cong:
  "(\<And>k L. k \<in> set ks \<Longrightarrow> map_of cl k = Some L \<Longrightarrow>
       chromosome_windows df k L W = chromosome_windows df' k L W) \<Longrightarrow>
   process_chromosomes df cl W ks results = process_chromosomes df' cl W ks results"
proof (induction ks arbitrary: results)
  case Nil
  show ?case by simp
next
  case (Cons k ks)
  show ?case
  proof (cases "map_of cl k")
    case None
    then show ?thesis by simp
  next
    case (Some L)
    have "chromosome_windows df k L W = chromosome_windows df' k L W"
      using Cons.prems Some by simp
    moreover have "process_chromosomes df cl W ks rs = process_chromosomes df' cl W ks rs" for rs
      using Cons.IH Cons.prems by simp
    ultimately show ?thesis using Some by simp
  qed
qed

text \<open>The loop reads the dictionary only through its lookups.\<close>

lemma process_chromosomes_lookup:
  "map_of cl = map_of cl' \<Longrightarrow>
   process_chromosomes df cl W ks results = process_chromosomes df cl' W ks results"
  by (induction ks arbitrary: results) (simp_all split: option.splits)

lemma out_chromosome_chromosome_windows:
  "w \<in> set (chromosome_windows df c L W) \<Longrightarrow> out_chromosome w = c"
  by (auto simp: chromosome_windows_def full_window_def partial_window_def Let_def
           split: if_splits)

lemma chr_results_concat:
  "distinct ks \<Longrightarrow> c \<in> set ks \<Longrightarrow>
   chr_results c (concat (map (\<lambda>k. chromosome_windows df k (f k) W) ks))
     = chromosome_windows df c (f c) W"
proof (induction ks)
  case Nil
  then show ?case by simp
next
  case (Cons k ks)
  have same: "chr_results c (chromosome_windows df c L W) = chromosome_windows df c L W" for L
    unfolding chr_results_def by (rule filter_True) (simp add: out_chromosome_chromosome_windows)
  have other: "chr_results c (chromosome_windows df k' L W) = []" if "k' \<noteq> c" for k' L
    unfolding chr_results_def using that
    by (auto simp: filter_empty_conv dest: out_chromosome_chromosome_windows)
  have absent: "chr_results c (concat (map (\<lambda>k. chromosome_windows df k (f k) W) ks)) = []"
    if "c \<notin> set ks"
    unfolding chr_results_def using that
    by (auto simp: filter_empty_conv dest: out_chromosome_chromosome_windows)
  have app: "chr_results c (xs @ ys) = chr_results c xs @ chr_results c ys" for xs ys
    by (simp add: chr_results_def)
  show ?case
  proof (cases "k = c")
    case True
    with Cons.prems have "c \<notin> set ks" by simp
    with True show ?thesis by (simp add: app same absent)
  next
    case False
    with Cons.prems have "c \<in> set ks" "distinct ks" by simp_all
    with Cons.IH False show ?thesis by (simp add: app other)
  qed
qed

lemma chr_results_count_features:
  assumes "distinct (map fst cl)" "(c, L) \<in> set cl" "W \<noteq> 0"
  shows "\<exists>out. count_features_in_windows df cl W = Inr out
           \<and> chr_results c out = chromosome_windows df c L W"
proof -
  have "map_of cl c = Some L" using assms(1,2) by simp
  moreover have "c \<in> set (sort (map fst cl))" using assms(2) by force
  moreover have "distinct (sort (map fst cl))" using assms(1) by simp
  ultimately show ?thesis
    using count_features_nonzero[OF assms(3), of df cl]
      chr_results_concat[of "sort (map fst cl)" c df "\<lambda>k. the (map_of cl k)" W]
    by simp
qed

section \<open>The unused columns\<close>

lemma count_starts_proj:
  "count_starts (filter (\<lambda>r. chromosome r = c) df) ws we
     = int (length (filter (\<lambda>p. fst p = c \<and> ws \<le> snd p \<and> snd p < we)
                           (map (\<lambda>r. (chromosome r, start r)) df)))"
proof -
  have "length (filter (\<lambda>p. fst p = c \<and> ws \<le> snd p \<and> snd p < we)
                       (map (\<lambda>r. (chromosome r, start r)) df))
        = length (filter (\<lambda>r. chromosome r = c \<and> ws \<le> start r \<and> start r < we) df)"
    by (induction df) simp_all
  then show ?thesis
    by (simp add: count_starts_def conj_commute conj_left_commute)
qed

lemma chromosome_windows_proj:
  assumes "map (\<lambda>r. (chromosome r, start r)) df = map (\<lambda>r. (chromosome r, start r)) df'"
  shows "chromosome_windows df c L W = chromosome_windows df' c L W"
proof -
  have "count_starts (filter (\<lambda>r. chromosome r = c) df) ws we
        = count_starts (filter (\<lambda>r. chromosome r = c) df') ws we" for ws we
    by (simp add: count_starts_proj assms)
  then show ?thesis
    by (simp add: chromosome_windows_def full_window_def partial_window_def Let_def)
qed

text \<open>
  Claim C8. Two coordinate tables that agree row by row on \<open>chromosome\<close> and \<open>start\<close>
  give the same result (the same windows with the same counts, or the same error) for
  the same length dictionary and window size, whatever their \<open>end\<close>, \<open>id\<close> and
  \<open>type\<close> columns hold.
\<close>

theorem end_id_type_unused:
  assumes "map (\<lambda>r. (chromosome r, start r)) df = map (\<lambda>r. (chromosome r, start r)) df'"
  shows "count_features_in_windows df chr_lengths window_size
           = count_features_in_windows df' chr_lengths window_size"
  unfolding count_features_in_windows_def
  by (rule process_chromosomes_cong) (rule chromosome_windows_proj[OF assms])

theorem end_id_type_unused_witness:
  "map (\<lambda>r. (chromosome r, start r))
       [row ''Chr6'' 9500 11000 ''ID3'' ''TYPE1'', row ''Chr7'' 500 1500 ''ID6'' ''TYPE1'']
     = map (\<lambda>r. (chromosome r, start r))
       [row ''Chr6'' 9500 9400 ''other'' ''TYPE2'', row ''Chr7'' 500 77 '''' ''gene'']
   \<and> count_features_in_windows
       [row ''Chr6'' 9500 11000 ''ID3'' ''TYPE1'', row ''Chr7'' 500 1500 ''ID6'' ''TYPE1'']
       test_chr_lengths 10000
     = count_features_in_windows
       [row ''Chr6'' 9500 9400 ''other'' ''TYPE2'', row ''Chr7'' 500 77 '''' ''gene'']
       test_chr_lengths 10000"
proof -
  have h: "map (\<lambda>r. (chromosome r, start r))
       [row ''Chr6'' 9500 11000 ''ID3'' ''TYPE1'', row ''Chr7'' 500 1500 ''ID6'' ''TYPE1'']
     = map (\<lambda>r. (chromosome r, start r))
       [row ''Chr6'' 9500 9400 ''other'' ''TYPE2'', row ''Chr7'' 500 77 '''' ''gene'']"
    by (simp add: row_def)
  from h end_id_type_unused[OF h, of test_chr_lengths 10000] show ?thesis
    by (rule conjI)
qed

section \<open>Rows of a chromosome without a length\<close>

lemma emitted_window:
  assumes "count_features_in_windows df cl W = Inr out" "w \<in> set out"
  shows "W \<noteq> 0 \<and> (\<exists>c L. (c, L) \<in> set cl \<and> map_of cl c = Some L
                         \<and> w \<in> set (chromosome_windows df c L W))"
proof -
  have nz: "W \<noteq> 0"
  proof
    assume "W = 0"
    with assms show False by (simp add: count_features_zero split: if_splits)
  qed
  define ks where "ks = sort (map fst cl)"
  from assms(1) count_features_nonzero[OF nz, of df cl]
  have "out = concat (map (\<lambda>c. chromosome_windows df c (the (map_of cl c)) W) ks)"
    by (simp add: ks_def)
  with assms(2) obtain c where c: "c \<in> set ks"
      "w \<in> set (chromosome_windows df c (the (map_of cl c)) W)"
    by auto
  from c(1) have "c \<in> fst ` set cl" by (simp add: ks_def)
  then obtain L where L: "map_of cl c = Some L"
    by (metis domD dom_map_of_conv_image_fst)
  then have "(c, L) \<in> set cl" by (rule map_of_SomeD)
  with nz c(2) L show ?thesis by auto
qed

lemma chromosome_windows_other_row:
  "chromosome r \<noteq> k \<Longrightarrow>
   chromosome_windows (xs @ r # ys) k L W = chromosome_windows (xs @ ys) k L W"
  by (simp add: chromosome_windows_def)

text \<open>
  Claim C6. A row whose chromosome is not a key of the length dictionary changes nothing:
  the result on the table with the row is the result on the table without it (the same
  records in the same order, or the same error, so the row raises nothing of its own),
  no emitted record carries the row's chromosome, and the row is counted in no window.
\<close>

theorem unknown_chromosome_ignored:
  assumes "chromosome r \<notin> fst ` set chr_lengths"
  shows "count_features_in_windows (xs @ r # ys) chr_lengths window_size
           = count_features_in_windows (xs @ ys) chr_lengths window_size
         \<and> (\<forall>out. count_features_in_windows (xs @ r # ys) chr_lengths window_size = Inr out
               \<longrightarrow> (\<forall>w \<in> set out. out_chromosome w \<noteq> chromosome r \<and> \<not> counted_in r w))"
proof (intro conjI allI impI ballI)
  show "count_features_in_windows (xs @ r # ys) chr_lengths window_size
           = count_features_in_windows (xs @ ys) chr_lengths window_size"
    unfolding count_features_in_windows_def
  proof (rule process_chromosomes_cong)
    fix k L
    assume "k \<in> set (sort (map fst chr_lengths))"
    then have "k \<in> fst ` set chr_lengths" by simp
    with assms have "chromosome r \<noteq> k" by auto
    then show "chromosome_windows (xs @ r # ys) k L window_size
                 = chromosome_windows (xs @ ys) k L window_size"
      by (rule chromosome_windows_other_row)
  qed
next
  fix out w
  assume "count_features_in_windows (xs @ r # ys) chr_lengths window_size = Inr out"
    and "w \<in> set out"
  then obtain c L where "(c, L) \<in> set chr_lengths"
    and "w \<in> set (chromosome_windows (xs @ r # ys) c L window_size)"
    using emitted_window by blast
  then have "(out_chromosome w, L) \<in> set chr_lengths"
    by (simp add: out_chromosome_chromosome_windows)
  then have "out_chromosome w \<in> fst ` set chr_lengths"
    by (metis fst_conv imageI)
  with assms show "out_chromosome w \<noteq> chromosome r" by metis
  then show "\<not> counted_in r w" by (simp add: counted_in_def)
qed

theorem unknown_chromosome_ignored_witness:
  "chromosome (row ''Chr9'' 500 1500 ''ID8'' ''TYPE1'') \<notin> fst ` set test_chr_lengths
   \<and> count_features_in_windows (test_data @ row ''Chr9'' 500 1500 ''ID8'' ''TYPE1'' # [])
         test_chr_lengths 10000
       = count_features_in_windows (test_data @ []) test_chr_lengths 10000
   \<and> count_features_in_windows (test_data @ row ''Chr9'' 500 1500 ''ID8'' ''TYPE1'' # [])
         test_chr_lengths 10000
       = Inr [\<lparr>out_chromosome = ''Chr6'', window_start = 0, window_end = 10000,
                 feature_count = 4\<rparr>,
              \<lparr>out_chromosome = ''Chr6'', window_start = 10000, window_end = 20000,
                 feature_count = 1\<rparr>,
              \<lparr>out_chromosome = ''Chr7'', window_start = 0, window_end = 10000,
                 feature_count = 1\<rparr>,
              \<lparr>out_chromosome = ''Chr7'', window_start = 10000, window_end = 15000,
                 feature_count = 1\<rparr>]"
proof -
  have h: "chromosome (row ''Chr9'' 500 1500 ''ID8'' ''TYPE1'') \<notin> fst ` set test_chr_lengths"
    by (simp add: row_def test_chr_lengths_def)
  have e: "count_features_in_windows (test_data @ []) test_chr_lengths 10000
       = Inr [\<lparr>out_chromosome = ''Chr6'', window_start = 0, window_end = 10000,
                 feature_count = 4\<rparr>,
              \<lparr>out_chromosome = ''Chr6'', window_start = 10000, window_end = 20000,
                 feature_count = 1\<rparr>,
              \<lparr>out_chromosome = ''Chr7'', window_start = 0, window_end = 10000,
                 feature_count = 1\<rparr>,
              \<lparr>out_chromosome = ''Chr7'', window_start = 10000, window_end = 15000,
                 feature_count = 1\<rparr>]"
    by code_simp
  from unknown_chromosome_ignored[OF h, of test_data "[]" 10000]
  have "count_features_in_windows (test_data @ row ''Chr9'' 500 1500 ''ID8'' ''TYPE1'' # [])
         test_chr_lengths 10000
       = count_features_in_windows (test_data @ []) test_chr_lengths 10000"
    by (rule conjunct1)
  with h e show ?thesis by simp
qed

section \<open>The windows of one chromosome\<close>

lemma tiles_append:
  "tiles a (xs @ ys) b \<longleftrightarrow> (\<exists>m. tiles a xs m \<and> tiles m ys b)"
  by (induction xs arbitrary: a) auto

lemma tiles_le: "tiles a ws b \<Longrightarrow> a \<le> b"
  by (induction ws arbitrary: a) force+

lemma tiles_hd_last:
  "tiles a ws b \<Longrightarrow> ws \<noteq> [] \<Longrightarrow> window_start (hd ws) = a \<and> window_end (last ws) = b"
proof (induction ws arbitrary: a)
  case Nil
  then show ?case by simp
next
  case (Cons w ws)
  then show ?case by (cases ws) auto
qed

lemma tiles_bounds:
  "tiles a ws b \<Longrightarrow> w \<in> set ws \<Longrightarrow>
     a \<le> window_start w \<and> window_start w < window_end w \<and> window_end w \<le> b"
proof (induction ws arbitrary: a)
  case Nil
  then show ?case by simp
next
  case (Cons v ws)
  show ?case
  proof (cases "w = v")
    case True
    with Cons.prems tiles_le[of "window_end v" ws b] show ?thesis by simp
  next
    case False
    with Cons.prems have "w \<in> set ws" "tiles (window_end v) ws b" by simp_all
    with Cons.IH have "window_end v \<le> window_start w \<and> window_start w < window_end w
                        \<and> window_end w \<le> b" by blast
    with Cons.prems show ?thesis by simp
  qed
qed

lemma tiles_contiguous:
  "tiles a ws b \<Longrightarrow> Suc i < length ws \<Longrightarrow> window_end (ws ! i) = window_start (ws ! Suc i)"
proof (induction ws arbitrary: a i)
  case Nil
  then show ?case by simp
next
  case (Cons w ws)
  from Cons.prems obtain v vs where ws: "ws = v # vs" by (cases ws) auto
  show ?case
  proof (cases i)
    case 0
    with Cons.prems ws show ?thesis by simp
  next
    case (Suc j)
    with Cons.prems have "tiles (window_end w) ws b" "Suc j < length ws" by simp_all
    with Cons.IH have "window_end (ws ! j) = window_start (ws ! Suc j)" by blast
    with Suc show ?thesis by simp
  qed
qed

lemma tiles_disjoint:
  "tiles a ws b \<Longrightarrow> i < j \<Longrightarrow> j < length ws \<Longrightarrow> window_end (ws ! i) \<le> window_start (ws ! j)"
proof (induction ws arbitrary: a i j)
  case Nil
  then show ?case by simp
next
  case (Cons w ws)
  from Cons.prems obtain j' where j: "j = Suc j'" "j' < length ws" by (cases j) auto
  from Cons.prems have t: "tiles (window_end w) ws b" by simp
  show ?case
  proof (cases i)
    case 0
    from tiles_bounds[OF t, of "ws ! j'"] j have "window_end w \<le> window_start (ws ! j')"
      by simp
    with 0 j show ?thesis by simp
  next
    case (Suc i')
    with Cons.prems j have "i' < j'" by simp
    with Cons.IH t j have "window_end (ws ! i') \<le> window_start (ws ! j')" by blast
    with Suc j show ?thesis by simp
  qed
qed

lemma count_starts_split:
  "a \<le> m \<Longrightarrow> m \<le> b \<Longrightarrow> count_starts d a m + count_starts d m b = count_starts d a b"
  unfolding count_starts_def by (induction d) auto

lemma tiles_sum:
  "tiles a ws b \<Longrightarrow>
   (\<And>w. w \<in> set ws \<Longrightarrow> feature_count w = count_starts d (window_start w) (window_end w)) \<Longrightarrow>
   sum_list (map feature_count ws) = count_starts d a b"
proof (induction ws arbitrary: a)
  case Nil
  then show ?case by (simp add: count_starts_def)
next
  case (Cons w ws)
  from Cons.prems(1) have t: "tiles (window_end w) ws b" and a: "window_start w = a"
    and lt: "a < window_end w" by simp_all
  have "sum_list (map feature_count ws) = count_starts d (window_end w) b"
    using Cons.IH[OF t] Cons.prems(2) by simp
  moreover have "feature_count w = count_starts d a (window_end w)"
    using Cons.prems(2)[of w] a by simp
  moreover have "window_end w \<le> b" using t by (rule tiles_le)
  ultimately show ?case using lt count_starts_split[of a "window_end w" b d] by simp
qed

lemma tiles_outside:
  "tiles a ws b \<Longrightarrow> s < a \<or> b \<le> s \<Longrightarrow>
   filter (\<lambda>w. window_start w \<le> s \<and> s < window_end w) ws = []"
proof -
  assume t: "tiles a ws b" and s: "s < a \<or> b \<le> s"
  have "\<not> (window_start w \<le> s \<and> s < window_end w)" if "w \<in> set ws" for w
    using tiles_bounds[OF t that] s by auto
  then show ?thesis by (simp add: filter_empty_conv)
qed

lemma tiles_unique:
  "tiles a ws b \<Longrightarrow> a \<le> s \<Longrightarrow> s < b \<Longrightarrow>
   length (filter (\<lambda>w. window_start w \<le> s \<and> s < window_end w) ws) = 1"
proof (induction ws arbitrary: a)
  case Nil
  then show ?case by simp
next
  case (Cons w ws)
  from Cons.prems(1) have t: "tiles (window_end w) ws b" and a: "window_start w = a"
    by simp_all
  show ?case
  proof (cases "s < window_end w")
    case True
    with tiles_outside[OF t, of s] a Cons.prems(2) show ?thesis by simp
  next
    case False
    with Cons.IH[OF t] Cons.prems(3) show ?thesis by simp
  qed
qed

lemma tiles_full_windows:
  "0 < W \<Longrightarrow> tiles 0 (map (\<lambda>i. full_window d c W (int i)) [0..<n]) (int n * W)"
proof (induction n)
  case 0
  show ?case by simp
next
  case (Suc n)
  have "tiles (int n * W) [full_window d c W (int n)] (int (Suc n) * W)"
    using Suc.prems by (simp add: full_window_def Let_def algebra_simps)
  with Suc show ?case by (auto simp: tiles_append)
qed

lemma tiles_chromosome_windows:
  assumes "0 < W" "0 \<le> L"
  shows "tiles 0 (chromosome_windows df c L W) L"
proof -
  define d where "d = filter (\<lambda>r. chromosome r = c) df"
  have n: "int (nat (L div W)) = L div W"
    using assms by (simp add: pos_imp_zdiv_nonneg_iff)
  have full: "tiles 0 (map (\<lambda>i. full_window d c W (int i)) [0..<nat (L div W)]) (L div W * W)"
    using tiles_full_windows[OF assms(1), of d c "nat (L div W)"] n by simp
  show ?thesis
  proof (cases "L mod W > 0")
    case True
    have "L div W * W + L mod W = L" by simp
    with True have "L div W * W < L" by linarith
    then have "tiles (L div W * W) [partial_window d c L W (L div W)] L"
      by (simp add: partial_window_def Let_def)
    with full True show ?thesis
      unfolding chromosome_windows_def Let_def d_def[symmetric]
      by (auto simp: tiles_append)
  next
    case False
    with assms have "L mod W = 0" by (smt (verit) pos_mod_sign)
    then have "L div W * W = L" by (metis add.right_neutral div_mult_mod_eq)
    with full False show ?thesis
      unfolding chromosome_windows_def Let_def d_def[symmetric] by simp
  qed
qed

lemma feature_count_chromosome_windows:
  "w \<in> set (chromosome_windows df c L W) \<Longrightarrow>
   feature_count w
     = count_starts (filter (\<lambda>r. chromosome r = c) df) (window_start w) (window_end w)"
  by (auto simp: chromosome_windows_def full_window_def partial_window_def Let_def
           split: if_splits)

lemma count_starts_chromosome:
  "count_starts (filter (\<lambda>r. chromosome r = c) df) lo hi = starts_within df c lo hi"
  by (simp add: count_starts_def starts_within_def conj_commute conj_left_commute)

lemma length_chromosome_windows:
  "length (chromosome_windows df c L W) = nat (L div W) + (if L mod W > 0 then 1 else 0)"
  by (simp add: chromosome_windows_def Let_def)

lemma window_bounds_positive_size:
  assumes "0 < W" "w \<in> set (chromosome_windows df c L W)"
  shows "window_start w < window_end w"
proof -
  have "(L div W) * W < L" if "L mod W > 0"
  proof -
    have "L div W * W + L mod W = L" by simp
    with that show ?thesis by linarith
  qed
  with assms show ?thesis
    by (auto simp: chromosome_windows_def full_window_def partial_window_def Let_def
          algebra_simps split: if_splits)
qed

section \<open>What a window counts\<close>

text \<open>
  Claim C1. Every emitted window belongs to a chromosome of the length dictionary, and
  its \<open>feature_count\<close> is the number of rows of the table with that chromosome and
  with \<open>window_start \<le> start < window_end\<close>. For a positive window size, a row
  of the window's chromosome whose start is the window's start is counted in it, and a
  row whose start is a window's end is not counted in that window: a start on a boundary
  goes to the window that begins there, not to the preceding one.
\<close>

theorem feature_count_is_number_of_starts_in_window:
  assumes "count_features_in_windows coordinates_df chr_lengths window_size = Inr out"
    and "w \<in> set out"
  shows "out_chromosome w \<in> fst ` set chr_lengths
         \<and> feature_count w = int (length (filter (\<lambda>r. counted_in r w) coordinates_df))
         \<and> (0 < window_size \<longrightarrow>
              (\<forall>r. chromosome r = out_chromosome w \<and> start r = window_start w
                     \<longrightarrow> counted_in r w)
              \<and> (\<forall>r. start r = window_end w \<longrightarrow> \<not> counted_in r w))"
proof -
  from emitted_window[OF assms] obtain c L where cl: "(c, L) \<in> set chr_lengths"
    and w: "w \<in> set (chromosome_windows coordinates_df c L window_size)"
    by blast
  have c: "out_chromosome w = c" using w by (rule out_chromosome_chromosome_windows)
  have "out_chromosome w \<in> fst ` set chr_lengths"
    using cl c by (metis fst_conv imageI)
  moreover have "feature_count w = int (length (filter (\<lambda>r. counted_in r w) coordinates_df))"
    using feature_count_chromosome_windows[OF w] c
    by (simp add: count_starts_def counted_in_def conj_commute conj_left_commute)
  moreover have "window_start w < window_end w" if "0 < window_size"
    using that w by (rule window_bounds_positive_size)
  ultimately show ?thesis by (simp add: counted_in_def)
qed

theorem feature_count_is_number_of_starts_in_window_witness:
  "count_features_in_windows
      (test_data @ [row ''Chr6'' 10000 10500 ''ID8'' ''TYPE1'']) test_chr_lengths 10000
     = Inr [\<lparr>out_chromosome = ''Chr6'', window_start = 0, window_end = 10000,
               feature_count = 4\<rparr>,
            \<lparr>out_chromosome = ''Chr6'', window_start = 10000, window_end = 20000,
               feature_count = 2\<rparr>,
            \<lparr>out_chromosome = ''Chr7'', window_start = 0, window_end = 10000,
               feature_count = 1\<rparr>,
            \<lparr>out_chromosome = ''Chr7'', window_start = 10000, window_end = 15000,
               feature_count = 1\<rparr>]
   \<and> feature_count \<lparr>out_chromosome = ''Chr6'', window_start = 10000, window_end = 20000,
                     feature_count = 2\<rparr>
     = int (length (filter
         (\<lambda>r. counted_in r \<lparr>out_chromosome = ''Chr6'', window_start = 10000,
                               window_end = 20000, feature_count = 2\<rparr>)
         (test_data @ [row ''Chr6'' 10000 10500 ''ID8'' ''TYPE1''])))
   \<and> counted_in (row ''Chr6'' 10000 10500 ''ID8'' ''TYPE1'')
        \<lparr>out_chromosome = ''Chr6'', window_start = 10000, window_end = 20000,
          feature_count = 2\<rparr>"
proof -
  have e: "count_features_in_windows
      (test_data @ [row ''Chr6'' 10000 10500 ''ID8'' ''TYPE1'']) test_chr_lengths 10000
     = Inr [\<lparr>out_chromosome = ''Chr6'', window_start = 0, window_end = 10000,
               feature_count = 4\<rparr>,
            \<lparr>out_chromosome = ''Chr6'', window_start = 10000, window_end = 20000,
               feature_count = 2\<rparr>,
            \<lparr>out_chromosome = ''Chr7'', window_start = 0, window_end = 10000,
               feature_count = 1\<rparr>,
            \<lparr>out_chromosome = ''Chr7'', window_start = 10000, window_end = 15000,
               feature_count = 1\<rparr>]"
    by code_simp
  have m: "\<lparr>out_chromosome = ''Chr6'', window_start = 10000, window_end = 20000,
            feature_count = 2\<rparr>
          \<in> set [\<lparr>out_chromosome = ''Chr6'', window_start = 0, window_end = 10000,
               feature_count = 4\<rparr>,
            \<lparr>out_chromosome = ''Chr6'', window_start = 10000, window_end = 20000,
               feature_count = 2\<rparr>,
            \<lparr>out_chromosome = ''Chr7'', window_start = 0, window_end = 10000,
               feature_count = 1\<rparr>,
            \<lparr>out_chromosome = ''Chr7'', window_start = 10000, window_end = 15000,
               feature_count = 1\<rparr>]"
    by simp
  let ?w = "\<lparr>out_chromosome = ''Chr6'', window_start = 10000, window_end = 20000,
              feature_count = 2\<rparr>"
  let ?r = "row ''Chr6'' 10000 10500 ''ID8'' ''TYPE1''"
  note t = feature_count_is_number_of_starts_in_window[OF e m]
  have a: "feature_count ?w = int (length (filter (\<lambda>r. counted_in r ?w) (test_data @ [?r])))"
    using t by blast
  have pos: "0 < (10000::int)" by simp
  from t pos have "chromosome ?r = out_chromosome ?w \<and> start ?r = window_start ?w
                     \<longrightarrow> counted_in ?r ?w"
    by blast
  then have b: "counted_in ?r ?w" by (simp add: row_def)
  from e a b show ?thesis by (intro conjI)
qed

section \<open>How many windows a chromosome gets\<close>

lemma ceiling_quotient:
  assumes "0 < (W::int)"
  shows "\<lceil>real_of_int L / real_of_int W\<rceil> = L div W + (if L mod W > 0 then 1 else 0)"
proof -
  have m: "0 \<le> L mod W" using assms by simp
  have "\<lceil>real_of_int L / real_of_int W\<rceil> = - (- L div W)" by (rule ceiling_divide_eq_div)
  also have "\<dots> = (if L mod W = 0 then L div W else L div W + 1)"
    using assms by (simp add: zdiv_zminus1_eq_if)
  finally show ?thesis using m by auto
qed

text \<open>
  Claim C2. For a dictionary entry of length \<open>L\<close> and a positive window size \<open>W\<close>
  the function returns a result, in which the chromosome has: for \<open>L > 0\<close>, exactly
  \<open>ceil(L / W)\<close> windows, the last of them ending at \<open>L\<close>; for \<open>L = 0\<close>, no
  window; for \<open>0 < L < W\<close>, the single window \<open>[0, L)\<close>.
\<close>

theorem number_of_windows:
  assumes "distinct (map fst chr_lengths)" and "(chrom, L) \<in> set chr_lengths"
    and "0 < window_size"
  shows "\<exists>out. count_features_in_windows coordinates_df chr_lengths window_size = Inr out
     \<and> (0 < L \<longrightarrow>
           int (length (chr_results chrom out)) = \<lceil>real_of_int L / real_of_int window_size\<rceil>
           \<and> chr_results chrom out \<noteq> []
           \<and> window_end (last (chr_results chrom out)) = L)
     \<and> (L = 0 \<longrightarrow> chr_results chrom out = [])
     \<and> (0 < L \<and> L < window_size \<longrightarrow>
           map (\<lambda>w. (window_start w, window_end w)) (chr_results chrom out) = [(0, L)])"
proof -
  let ?ws = "chromosome_windows coordinates_df chrom L window_size"
  from assms have "window_size \<noteq> 0" by simp
  from chr_results_count_features[OF assms(1,2) this, of coordinates_df]
  obtain out where out: "count_features_in_windows coordinates_df chr_lengths window_size = Inr out"
    and ws: "chr_results chrom out = ?ws"
    by blast
  have len: "int (length ?ws) = \<lceil>real_of_int L / real_of_int window_size\<rceil>" if "0 < L"
  proof -
    from that assms(3) have "0 \<le> L div window_size"
      by (simp add: pos_imp_zdiv_nonneg_iff)
    then show ?thesis
      by (simp add: length_chromosome_windows ceiling_quotient[OF assms(3)])
  qed
  have ne: "?ws \<noteq> []" if "0 < L"
  proof
    assume "?ws = []"
    then have "length ?ws = 0" by simp
    then have d: "L div window_size \<le> 0" and m: "\<not> 0 < L mod window_size"
      by (simp_all add: length_chromosome_windows split: if_splits)
    have "0 \<le> L mod window_size" using assms(3) by simp
    with m have "L mod window_size = 0" by simp
    then have "L = L div window_size * window_size"
      by (metis add.right_neutral div_mult_mod_eq)
    moreover have "L div window_size * window_size \<le> 0"
      using d assms(3) by (simp add: mult_le_0_iff)
    ultimately show False using that by simp
  qed
  have lst: "window_end (last ?ws) = L" if "0 < L"
    using tiles_hd_last[OF tiles_chromosome_windows[OF assms(3), of L coordinates_df chrom]]
      ne[OF that] that by simp
  have zero: "?ws = []" if "L = 0"
    using that by (simp add: chromosome_windows_def)
  have one: "map (\<lambda>w. (window_start w, window_end w)) ?ws = [(0, L)]" if "0 < L" "L < window_size"
    using that by (simp add: chromosome_windows_def partial_window_def Let_def)
  from out ws len ne lst zero one show ?thesis by simp
qed

theorem number_of_windows_witness:
  "distinct (map fst test_chr_lengths) \<and> (''Chr7'', 15000) \<in> set test_chr_lengths
   \<and> 0 < (10000::int) \<and> 0 < (15000::int)
   \<and> (\<exists>out. count_features_in_windows test_data test_chr_lengths 10000 = Inr out
         \<and> int (length (chr_results ''Chr7'' out)) = \<lceil>real_of_int 15000 / real_of_int 10000\<rceil>
         \<and> window_end (last (chr_results ''Chr7'' out)) = 15000)
   \<and> (15000::int) < 100000
   \<and> (\<exists>out. count_features_in_windows test_data test_chr_lengths 100000 = Inr out
         \<and> map (\<lambda>w. (window_start w, window_end w)) (chr_results ''Chr7'' out)
             = [(0, 15000)])
   \<and> (\<exists>out. count_features_in_windows test_data [(''Chr7'', 0)] 10000 = Inr out
         \<and> chr_results ''Chr7'' out = [])"
proof -
  have h1: "distinct (map fst test_chr_lengths)" by (simp add: test_chr_lengths_def)
  have h2: "(''Chr7'', 15000) \<in> set test_chr_lengths" by (simp add: test_chr_lengths_def)
  have h3: "0 < (10000::int)" by simp
  have h4: "0 < (15000::int)" by simp
  have h5: "(15000::int) < 100000" by simp
  have h6: "0 < (100000::int)" by simp
  have z1: "distinct (map fst [(''Chr7'', 0::int)])" by simp
  have z2: "(''Chr7'', 0::int) \<in> set [(''Chr7'', 0)]" by simp
  from number_of_windows[OF h1 h2 h3, of test_data] h4
  have a: "\<exists>out. count_features_in_windows test_data test_chr_lengths 10000 = Inr out
         \<and> int (length (chr_results ''Chr7'' out)) = \<lceil>real_of_int 15000 / real_of_int 10000\<rceil>
         \<and> window_end (last (chr_results ''Chr7'' out)) = 15000"
    by blast
  from number_of_windows[OF h1 h2 h6, of test_data]
  obtain out where o: "count_features_in_windows test_data test_chr_lengths 100000 = Inr out"
    and i: "0 < (15000::int) \<and> (15000::int) < 100000 \<longrightarrow>
            map (\<lambda>w. (window_start w, window_end w)) (chr_results ''Chr7'' out)
              = [(0, 15000)]"
    by (elim exE conjE) (rule that)
  from h4 h5 have "0 < (15000::int) \<and> (15000::int) < 100000" by (rule conjI)
  with i
  have "map (\<lambda>w. (window_start w, window_end w)) (chr_results ''Chr7'' out) = [(0, 15000)]"
    by (rule mp)
  with o
  have b: "\<exists>out. count_features_in_windows test_data test_chr_lengths 100000 = Inr out
         \<and> map (\<lambda>w. (window_start w, window_end w)) (chr_results ''Chr7'' out)
             = [(0, 15000)]"
    by (intro exI conjI)
  from number_of_windows[OF z1 z2 h3, of test_data]
  have c: "\<exists>out. count_features_in_windows test_data [(''Chr7'', 0)] 10000 = Inr out
         \<and> chr_results ''Chr7'' out = []"
    by blast
  from h1 h2 h3 h4 a h5 b c show ?thesis by (intro conjI)
qed

section \<open>The windows tile the chromosome\<close>

lemma tiles_union:
  "tiles a ws b \<Longrightarrow> (\<Union>w\<in>set ws. {window_start w..<window_end w}) = {a..<b}"
proof (induction ws arbitrary: a)
  case Nil
  then show ?case by simp
next
  case (Cons w ws)
  from Cons.prems have t: "tiles (window_end w) ws b" and a: "window_start w = a"
    and lt: "a < window_end w" by simp_all
  from t have "window_end w \<le> b" by (rule tiles_le)
  with lt have "{a..<window_end w} \<union> {window_end w..<b} = {a..<b}"
    by (simp add: ivl_disj_un)
  with Cons.IH[OF t] a show ?case by simp
qed

lemma nth_chromosome_windows_full:
  assumes "i < nat (L div W)"
  shows "chromosome_windows df c L W ! i
           = full_window (filter (\<lambda>r. chromosome r = c) df) c W (int i)"
  using assms by (simp add: chromosome_windows_def Let_def nth_append)

lemma width_full_window:
  "window_end (full_window d c W i) - window_start (full_window d c W i) = W"
  by (simp add: full_window_def Let_def algebra_simps)

lemma width_before_last:
  assumes "Suc i < length (chromosome_windows df c L W)"
  shows "window_end (chromosome_windows df c L W ! i)
           - window_start (chromosome_windows df c L W ! i) = W"
proof -
  from assms have "i < nat (L div W)"
    by (simp add: length_chromosome_windows split: if_splits)
  then show ?thesis by (simp add: nth_chromosome_windows_full width_full_window)
qed

lemma width_last:
  assumes "chromosome_windows df c L W \<noteq> []"
  shows "window_end (last (chromosome_windows df c L W))
           - window_start (last (chromosome_windows df c L W))
         = (if L mod W > 0 then L mod W else W)"
proof (cases "L mod W > 0")
  case True
  have "L - L div W * W = L mod W" by (simp add: minus_div_mult_eq_mod)
  with True show ?thesis
    by (simp add: chromosome_windows_def Let_def partial_window_def)
next
  case False
  with assms have n: "nat (L div W) \<noteq> 0"
    by (auto simp: chromosome_windows_def Let_def)
  then have "[0..<nat (L div W)] \<noteq> []" by simp
  with False show ?thesis
    by (simp add: chromosome_windows_def Let_def last_map width_full_window)
qed

text \<open>
  Claim C3. For a dictionary entry of length \<open>L > 0\<close> and a window size \<open>W > 0\<close>
  the function returns a result in which the chromosome's windows, in emission order,
  tile \<open>[0, L)\<close>: there is at least one, the first starts at 0, each ends where the
  next starts, the last ends at \<open>L\<close>, any two are disjoint half-open intervals, and
  together they cover \<open>[0, L)\<close>. Every window but the last has width \<open>W\<close>; the last
  has width \<open>W\<close> when \<open>W\<close> divides \<open>L\<close> (no partial window), and width
  \<open>L mod W < W\<close> otherwise (one trailing partial window).
\<close>

theorem windows_tile_chromosome:
  assumes "distinct (map fst chr_lengths)" and "(chrom, L) \<in> set chr_lengths"
    and "0 < window_size" and "0 < L"
  shows "\<exists>out ws. count_features_in_windows coordinates_df chr_lengths window_size = Inr out
     \<and> ws = chr_results chrom out
     \<and> ws \<noteq> [] \<and> window_start (hd ws) = 0 \<and> window_end (last ws) = L
     \<and> (\<forall>i. Suc i < length ws \<longrightarrow> window_end (ws ! i) = window_start (ws ! Suc i))
     \<and> (\<forall>i j. i < j \<and> j < length ws \<longrightarrow>
           {window_start (ws ! i)..<window_end (ws ! i)}
             \<inter> {window_start (ws ! j)..<window_end (ws ! j)} = {})
     \<and> (\<Union>w\<in>set ws. {window_start w..<window_end w}) = {0..<L}
     \<and> (\<forall>i. Suc i < length ws \<longrightarrow> window_end (ws ! i) - window_start (ws ! i) = window_size)
     \<and> (if L mod window_size = 0
         then window_end (last ws) - window_start (last ws) = window_size
         else window_end (last ws) - window_start (last ws) = L mod window_size
              \<and> L mod window_size < window_size)"
proof -
  let ?ws = "chromosome_windows coordinates_df chrom L window_size"
  from assms have "window_size \<noteq> 0" by simp
  from chr_results_count_features[OF assms(1,2) this, of coordinates_df]
  obtain out where out: "count_features_in_windows coordinates_df chr_lengths window_size = Inr out"
    and ws: "?ws = chr_results chrom out"
    by (elim exE conjE) (rule that, assumption, rule sym)
  have t: "tiles 0 ?ws L"
    using assms(3,4) by (simp add: tiles_chromosome_windows)
  have ne: "?ws \<noteq> []"
  proof
    assume "?ws = []"
    with t have "0 = L" by simp
    with assms(4) show False by simp
  qed
  have hl: "window_start (hd ?ws) = 0" "window_end (last ?ws) = L"
    using tiles_hd_last[OF t ne] by simp_all
  have cont: "\<forall>i. Suc i < length ?ws \<longrightarrow> window_end (?ws ! i) = window_start (?ws ! Suc i)"
    using tiles_contiguous[OF t] by blast
  have disj: "\<forall>i j. i < j \<and> j < length ?ws \<longrightarrow>
           {window_start (?ws ! i)..<window_end (?ws ! i)}
             \<inter> {window_start (?ws ! j)..<window_end (?ws ! j)} = {}"
  proof (intro allI impI)
    fix i j assume "i < j \<and> j < length ?ws"
    then have "window_end (?ws ! i) \<le> window_start (?ws ! j)"
      using tiles_disjoint[OF t] by blast
    then show "{window_start (?ws ! i)..<window_end (?ws ! i)}
             \<inter> {window_start (?ws ! j)..<window_end (?ws ! j)} = {}"
      by auto
  qed
  have un: "(\<Union>w\<in>set ?ws. {window_start w..<window_end w}) = {0..<L}"
    using t by (rule tiles_union)
  have full: "\<forall>i. Suc i < length ?ws \<longrightarrow>
                window_end (?ws ! i) - window_start (?ws ! i) = window_size"
    by (simp add: width_before_last)
  have m: "0 \<le> L mod window_size" "L mod window_size < window_size"
    using assms(3) by simp_all
  have lastw: "if L mod window_size = 0
         then window_end (last ?ws) - window_start (last ?ws) = window_size
         else window_end (last ?ws) - window_start (last ?ws) = L mod window_size
              \<and> L mod window_size < window_size"
    using width_last[OF ne] m by auto
  from out ne hl cont disj un full lastw show ?thesis
    unfolding ws by (intro exI conjI) (rule refl | assumption)+
qed

theorem windows_tile_chromosome_witness:
  "distinct (map fst test_chr_lengths) \<and> (''Chr7'', 15000) \<in> set test_chr_lengths
   \<and> 0 < (10000::int) \<and> 0 < (15000::int)
   \<and> (\<exists>out ws. count_features_in_windows test_data test_chr_lengths 10000 = Inr out
         \<and> ws = chr_results ''Chr7'' out
         \<and> window_start (hd ws) = 0 \<and> window_end (last ws) = 15000
         \<and> window_end (last ws) - window_start (last ws) = 5000
         \<and> (\<Union>w\<in>set ws. {window_start w..<window_end w}) = {0..<15000})"
proof -
  have h1: "distinct (map fst test_chr_lengths)" by (simp add: test_chr_lengths_def)
  have h2: "(''Chr7'', 15000) \<in> set test_chr_lengths" by (simp add: test_chr_lengths_def)
  have h3: "0 < (10000::int)" by simp
  have h4: "0 < (15000::int)" by simp
  from windows_tile_chromosome[OF h1 h2 h3 h4, of test_data]
  obtain out ws where o: "count_features_in_windows test_data test_chr_lengths 10000 = Inr out"
    and w: "ws = chr_results ''Chr7'' out"
    and f: "window_start (hd ws) = 0" and l: "window_end (last ws) = 15000"
    and u: "(\<Union>w\<in>set ws. {window_start w..<window_end w}) = {0..<15000}"
    and p: "if (15000::int) mod 10000 = 0
         then window_end (last ws) - window_start (last ws) = 10000
         else window_end (last ws) - window_start (last ws) = 15000 mod 10000
              \<and> (15000::int) mod 10000 < 10000"
    by (elim exE conjE) (rule that)
  from p have q: "window_end (last ws) - window_start (last ws) = 5000" by simp
  from h1 h2 h3 h4 o w f l q u show ?thesis by (intro conjI exI)
qed

section \<open>Every start in range is counted once\<close>

lemma counted_in_chr_results:
  "chromosome r = c \<Longrightarrow> filter (counted_in r) out = filter (counted_in r) (chr_results c out)"
  unfolding chr_results_def by (induction out) (auto simp: counted_in_def)

lemma counted_in_own_chromosome:
  assumes "chromosome r = c" and "\<And>w. w \<in> set ws \<Longrightarrow> out_chromosome w = c"
  shows "filter (counted_in r) ws
           = filter (\<lambda>w. window_start w \<le> start r \<and> start r < window_end w) ws"
  using assms by (intro filter_cong) (auto simp: counted_in_def)

text \<open>
  Claim C4, as amended: the length is taken non-negative. For a dictionary entry of
  length \<open>L \<ge> 0\<close> and a window size \<open>W > 0\<close> the function returns a result
  in which the counts of the chromosome's windows add up to the number of its rows with
  start in \<open>[0, L)\<close>; each such row is counted in exactly one window of the output, and
  a row of the chromosome with start \<open>\<ge> L\<close> (or below 0) is counted in none.
\<close>

theorem counts_sum_to_starts_in_range:
  assumes "distinct (map fst chr_lengths)" and "(chrom, L) \<in> set chr_lengths"
    and "0 < window_size" and "0 \<le> L"
  shows "\<exists>out. count_features_in_windows coordinates_df chr_lengths window_size = Inr out
     \<and> sum_list (map feature_count (chr_results chrom out))
         = starts_within coordinates_df chrom 0 L
     \<and> (\<forall>r. chromosome r = chrom \<and> 0 \<le> start r \<and> start r < L
              \<longrightarrow> length (filter (counted_in r) out) = 1)
     \<and> (\<forall>r. chromosome r = chrom \<and> (L \<le> start r \<or> start r < 0)
              \<longrightarrow> filter (counted_in r) out = [])"
proof -
  let ?ws = "chromosome_windows coordinates_df chrom L window_size"
  from assms have "window_size \<noteq> 0" by simp
  from chr_results_count_features[OF assms(1,2) this, of coordinates_df]
  obtain out where out: "count_features_in_windows coordinates_df chr_lengths window_size = Inr out"
    and ws: "chr_results chrom out = ?ws"
    by blast
  have t: "tiles 0 ?ws L"
    using assms(3,4) by (rule tiles_chromosome_windows)
  have own: "out_chromosome w = chrom" if "w \<in> set ?ws" for w
    using that by (rule out_chromosome_chromosome_windows)
  have sel: "filter (counted_in r) out
               = filter (\<lambda>w. window_start w \<le> start r \<and> start r < window_end w) ?ws"
    if "chromosome r = chrom" for r
    using counted_in_chr_results[OF that, of out] counted_in_own_chromosome[OF that own]
    by (simp add: ws)
  have "sum_list (map feature_count ?ws)
          = count_starts (filter (\<lambda>r. chromosome r = chrom) coordinates_df) 0 L"
    using t by (rule tiles_sum) (rule feature_count_chromosome_windows)
  then have total: "sum_list (map feature_count (chr_results chrom out))
                      = starts_within coordinates_df chrom 0 L"
    by (simp add: ws count_starts_chromosome)
  have one: "length (filter (counted_in r) out) = 1"
    if "chromosome r = chrom \<and> 0 \<le> start r \<and> start r < L" for r
    using that tiles_unique[OF t, of "start r"] by (simp add: sel)
  have none: "filter (counted_in r) out = []"
    if "chromosome r = chrom \<and> (L \<le> start r \<or> start r < 0)" for r
    using that tiles_outside[OF t, of "start r"] by (auto simp: sel)
  from out total one none show ?thesis by blast
qed

theorem counts_sum_to_starts_in_range_witness:
  "distinct (map fst test_chr_lengths) \<and> (''Chr6'', 20000) \<in> set test_chr_lengths
   \<and> 0 < (10000::int) \<and> 0 \<le> (20000::int)
   \<and> (\<exists>out. count_features_in_windows
                 (test_data @ [row ''Chr6'' 20000 20100 ''ID8'' ''TYPE1''])
                 test_chr_lengths 10000 = Inr out
         \<and> sum_list (map feature_count (chr_results ''Chr6'' out)) = 5
         \<and> length (filter (counted_in (row ''Chr6'' 9750 10500 ''ID4'' ''TYPE1'')) out) = 1
         \<and> filter (counted_in (row ''Chr6'' 20000 20100 ''ID8'' ''TYPE1'')) out = [])"
proof -
  have h1: "distinct (map fst test_chr_lengths)" by (simp add: test_chr_lengths_def)
  have h2: "(''Chr6'', 20000) \<in> set test_chr_lengths" by (simp add: test_chr_lengths_def)
  have h3: "0 < (10000::int)" by simp
  have h4: "0 \<le> (20000::int)" by simp
  let ?df = "test_data @ [row ''Chr6'' 20000 20100 ''ID8'' ''TYPE1'']"
  have n: "starts_within ?df ''Chr6'' 0 20000 = 5"
    by (simp add: starts_within_def test_data_def row_def)
  from counts_sum_to_starts_in_range[OF h1 h2 h3 h4, of ?df]
  obtain out where o: "count_features_in_windows ?df test_chr_lengths 10000 = Inr out"
    and s: "sum_list (map feature_count (chr_results ''Chr6'' out))
              = starts_within ?df ''Chr6'' 0 20000"
    and a: "\<forall>r. chromosome r = ''Chr6'' \<and> 0 \<le> start r \<and> start r < 20000
              \<longrightarrow> length (filter (counted_in r) out) = 1"
    and b: "\<forall>r. chromosome r = ''Chr6'' \<and> (20000 \<le> start r \<or> start r < 0)
              \<longrightarrow> filter (counted_in r) out = []"
    by (elim exE conjE) (rule that)
  from s n have s': "sum_list (map feature_count (chr_results ''Chr6'' out)) = 5" by simp
  have a': "length (filter (counted_in (row ''Chr6'' 9750 10500 ''ID4'' ''TYPE1'')) out) = 1"
    by (rule a[rule_format]) (simp add: row_def)
  have b': "filter (counted_in (row ''Chr6'' 20000 20100 ''ID8'' ''TYPE1'')) out = []"
    by (rule b[rule_format]) (simp add: row_def)
  from h1 h2 h3 h4 o s' a' b' show ?thesis by (intro conjI exI)
qed

text \<open>
  Claim C4 as stated, for every length, fails at a negative one: with length \<open>-5\<close> and
  window size 10, \<open>-5 // 10 = -1\<close> and \<open>-5 % 10 = 5\<close>, so the partial window
  \<open>[-10, -5)\<close> is emitted and counts the row starting at \<open>-7\<close>, while no start
  lies in \<open>[0, -5)\<close>.
\<close>

theorem negative_length_window_counts_negative_start:
  "count_features_in_windows [row ''Chr1'' (- 7) (- 6) ''ID1'' ''TYPE1''] [(''Chr1'', - 5)] 10
     = Inr [\<lparr>out_chromosome = ''Chr1'', window_start = - 10, window_end = - 5,
               feature_count = 1\<rparr>]
   \<and> sum_list (map feature_count (chr_results ''Chr1''
         [\<lparr>out_chromosome = ''Chr1'', window_start = - 10, window_end = - 5,
            feature_count = 1\<rparr>])) = 1
   \<and> starts_within [row ''Chr1'' (- 7) (- 6) ''ID1'' ''TYPE1''] ''Chr1'' 0 (- 5) = 0"
  by (simp add: count_features_in_windows_def chromosome_windows_def partial_window_def
        count_starts_def starts_within_def chr_results_def row_def)

section \<open>Rows with a negative start\<close>

lemma count_starts_other_row:
  "\<not> (a \<le> start r \<and> start r < b) \<Longrightarrow>
   count_starts (filter P (xs @ r # ys)) a b = count_starts (filter P (xs @ ys)) a b"
  by (auto simp: count_starts_def)

lemma chromosome_windows_negative_start:
  assumes "start r < 0" and "W \<le> 0 \<or> 0 \<le> L"
  shows "chromosome_windows (xs @ r # ys) k L W = chromosome_windows (xs @ ys) k L W"
proof -
  let ?P = "\<lambda>r. chromosome r = k"
  have full: "full_window (filter ?P (xs @ r # ys)) k W (int i)
                = full_window (filter ?P (xs @ ys)) k W (int i)" for i
  proof -
    have "\<not> (int i * W \<le> start r \<and> start r < (int i + 1) * W)"
    proof (cases "0 < W")
      case True
      then have "0 \<le> int i * W" by simp
      with assms(1) show ?thesis by simp
    next
      case False
      then have "(int i + 1) * W \<le> int i * W" by (simp add: algebra_simps)
      then show ?thesis by linarith
    qed
    then have "count_starts (filter ?P (xs @ r # ys)) (int i * W) ((int i + 1) * W)
                 = count_starts (filter ?P (xs @ ys)) (int i * W) ((int i + 1) * W)"
      by (rule count_starts_other_row)
    then show ?thesis
      by (simp only: full_window_def Let_def)
  qed
  have part: "partial_window (filter ?P (xs @ r # ys)) k L W (L div W)
                = partial_window (filter ?P (xs @ ys)) k L W (L div W)"
    if "0 < L mod W"
  proof -
    have "0 \<le> L div W * W"
    proof (cases "0 < W")
      case True
      with assms(2) have "0 \<le> L" by simp
      with True have "0 \<le> L div W" by (simp add: pos_imp_zdiv_nonneg_iff)
      with True show ?thesis by simp
    next
      case False
      have "W = 0"
      proof (rule ccontr)
        assume "W \<noteq> 0"
        with False have "W < 0" by simp
        then have "L mod W \<le> 0" by simp
        with that show False by simp
      qed
      then show ?thesis by simp
    qed
    with assms(1) have "\<not> (L div W * W \<le> start r \<and> start r < L)" by simp
    then have "count_starts (filter ?P (xs @ r # ys)) (L div W * W) L
                 = count_starts (filter ?P (xs @ ys)) (L div W * W) L"
      by (rule count_starts_other_row)
    then show ?thesis
      by (simp only: partial_window_def Let_def)
  qed
  show ?thesis
  proof (cases "0 < L mod W")
    case True
    then show ?thesis
      unfolding chromosome_windows_def Let_def by (simp only: full part[OF True])
  next
    case False
    then show ?thesis
      unfolding chromosome_windows_def Let_def by (simp only: full if_False)
  qed
qed

text \<open>
  Claim C10, as amended: the chromosome lengths are taken non-negative, or the window
  size not positive. Then a row with a negative start changes nothing: the result on the
  table with the row is the result on the table without it (the same records, or the
  same error), the row is counted in no emitted window, and for a positive window size
  every emitted window starts at 0 or later.
\<close>

theorem negative_start_ignored:
  assumes "start r < 0"
    and "window_size \<le> 0 \<or> (\<forall>(c, L) \<in> set chr_lengths. 0 \<le> L)"
  shows "count_features_in_windows (xs @ r # ys) chr_lengths window_size
           = count_features_in_windows (xs @ ys) chr_lengths window_size
         \<and> (\<forall>out. count_features_in_windows (xs @ r # ys) chr_lengths window_size = Inr out
               \<longrightarrow> (\<forall>w \<in> set out. \<not> counted_in r w
                                     \<and> (0 < window_size \<longrightarrow> 0 \<le> window_start w)))"
proof (intro conjI allI impI ballI)
  show "count_features_in_windows (xs @ r # ys) chr_lengths window_size
           = count_features_in_windows (xs @ ys) chr_lengths window_size"
    unfolding count_features_in_windows_def
  proof (rule process_chromosomes_cong)
    fix k L
    assume "map_of chr_lengths k = Some L"
    then have "(k, L) \<in> set chr_lengths" by (rule map_of_SomeD)
    with assms(2) have "window_size \<le> 0 \<or> 0 \<le> L" by auto
    with assms(1) show "chromosome_windows (xs @ r # ys) k L window_size
                          = chromosome_windows (xs @ ys) k L window_size"
      by (rule chromosome_windows_negative_start)
  qed
next
  fix out w
  assume o: "count_features_in_windows (xs @ r # ys) chr_lengths window_size = Inr out"
    and w: "w \<in> set out"
  from emitted_window[OF o w] obtain c L where cl: "(c, L) \<in> set chr_lengths"
    and nz: "window_size \<noteq> 0"
    and wc: "w \<in> set (chromosome_windows (xs @ r # ys) c L window_size)"
    by blast
  show "\<not> counted_in r w"
  proof (cases "0 < window_size")
    case True
    with assms(2) cl have "0 \<le> L" by auto
    from tiles_bounds[OF tiles_chromosome_windows[OF True this] wc] assms(1)
    show ?thesis by (simp add: counted_in_def)
  next
    case False
    with nz have neg: "window_size < 0" by simp
    then have "L mod window_size \<le> 0" by simp
    with wc obtain i where "w = full_window (filter (\<lambda>r. chromosome r = c) (xs @ r # ys))
                                  c window_size (int i)"
      by (auto simp: chromosome_windows_def Let_def)
    then have "window_end w \<le> window_start w"
      using neg by (simp add: full_window_def Let_def algebra_simps)
    then show ?thesis by (simp add: counted_in_def)
  qed
  show "0 \<le> window_start w" if "0 < window_size"
  proof -
    from that assms(2) cl have "0 \<le> L" by auto
    from tiles_bounds[OF tiles_chromosome_windows[OF that this] wc]
    show ?thesis by simp
  qed
qed

theorem negative_start_ignored_witness:
  "start (row ''Chr6'' (- 1) 200 ''ID0'' ''TYPE1'') < 0
   \<and> list_all (\<lambda>p. 0 \<le> snd p) test_chr_lengths
   \<and> count_features_in_windows (row ''Chr6'' (- 1) 200 ''ID0'' ''TYPE1'' # test_data)
         test_chr_lengths 10000
       = count_features_in_windows test_data test_chr_lengths 10000
   \<and> count_features_in_windows (row ''Chr6'' (- 1) 200 ''ID0'' ''TYPE1'' # test_data)
         test_chr_lengths 10000
       = Inr [\<lparr>out_chromosome = ''Chr6'', window_start = 0, window_end = 10000,
                 feature_count = 4\<rparr>,
              \<lparr>out_chromosome = ''Chr6'', window_start = 10000, window_end = 20000,
                 feature_count = 1\<rparr>,
              \<lparr>out_chromosome = ''Chr7'', window_start = 0, window_end = 10000,
                 feature_count = 1\<rparr>,
              \<lparr>out_chromosome = ''Chr7'', window_start = 10000, window_end = 15000,
                 feature_count = 1\<rparr>]"
proof -
  let ?r = "row ''Chr6'' (- 1) 200 ''ID0'' ''TYPE1''"
  have h1: "start ?r < 0" by (simp add: row_def)
  have h2: "\<forall>(c, L) \<in> set test_chr_lengths. 0 \<le> L" by (simp add: test_chr_lengths_def)
  then have h2': "10000 \<le> (0::int) \<or> (\<forall>(c, L) \<in> set test_chr_lengths. 0 \<le> L)"
    by (rule disjI2)
  have e: "count_features_in_windows test_data test_chr_lengths 10000
       = Inr [\<lparr>out_chromosome = ''Chr6'', window_start = 0, window_end = 10000,
                 feature_count = 4\<rparr>,
              \<lparr>out_chromosome = ''Chr6'', window_start = 10000, window_end = 20000,
                 feature_count = 1\<rparr>,
              \<lparr>out_chromosome = ''Chr7'', window_start = 0, window_end = 10000,
                 feature_count = 1\<rparr>,
              \<lparr>out_chromosome = ''Chr7'', window_start = 10000, window_end = 15000,
                 feature_count = 1\<rparr>]"
    by code_simp
  from negative_start_ignored[OF h1 h2', of "[]" test_data]
  have q: "count_features_in_windows (?r # test_data) test_chr_lengths 10000
       = count_features_in_windows test_data test_chr_lengths 10000"
    by simp
  have h3: "list_all (\<lambda>p. 0 \<le> snd p) test_chr_lengths" by (simp add: test_chr_lengths_def)
  from h1 h3 q q[unfolded e] show ?thesis by (intro conjI)
qed

text \<open>
  Claim C10 as stated, for every input, fails where a chromosome length is negative:
  with length \<open>-1\<close> and window size 4, \<open>-1 // 4 = -1\<close> and \<open>-1 % 4 = 3\<close>, so
  the window \<open>[-4, -1)\<close> is emitted, with a negative start, and it counts the row
  starting at \<open>-2\<close>; without the row its count is 0.
\<close>

theorem negative_start_counted_under_negative_length:
  "count_features_in_windows [row ''Chr2'' (- 2) 5 ''ID1'' ''TYPE1''] [(''Chr2'', - 1)] 4
     = Inr [\<lparr>out_chromosome = ''Chr2'', window_start = - 4, window_end = - 1,
               feature_count = 1\<rparr>]
   \<and> count_features_in_windows [] [(''Chr2'', - 1)] 4
     = Inr [\<lparr>out_chromosome = ''Chr2'', window_start = - 4, window_end = - 1,
               feature_count = 0\<rparr>]
   \<and> start (row ''Chr2'' (- 2) 5 ''ID1'' ''TYPE1'') < 0"
  by (simp add: count_features_in_windows_def chromosome_windows_def partial_window_def
        count_starts_def row_def)

section \<open>Determinism\<close>

lemma count_features_same_dict:
  assumes "distinct (map fst cl)" and "distinct (map fst cl')" and "set cl = set cl'"
  shows "count_features_in_windows df cl W = count_features_in_windows df cl' W"
proof -
  have m: "map_of cl = map_of cl'"
    using assms by (simp add: map_of_inject_set)
  have "set (sort (map fst cl)) = set (sort (map fst cl'))"
    using assms(3) by simp
  moreover have "distinct (sort (map fst cl))" "distinct (sort (map fst cl'))"
    using assms(1,2) by simp_all
  ultimately have k: "sort (map fst cl) = sort (map fst cl')"
    by (intro sorted_distinct_set_unique) simp_all
  show ?thesis
    unfolding count_features_in_windows_def k
    by (rule process_chromosomes_lookup[OF m])
qed

text \<open>
  Claim C9. The function is deterministic: two calls on the same table, the same window
  size and length dictionaries that are equal as dictionaries (the same keys with the
  same values, each key once; the insertion order is free) give the same result, that
  is the same records in the same order, or the same error.
\<close>

theorem count_features_deterministic:
  assumes "coordinates_df = coordinates_df'" and "window_size = window_size'"
    and "distinct (map fst chr_lengths)" and "distinct (map fst chr_lengths')"
    and "set chr_lengths = set chr_lengths'"
  shows "count_features_in_windows coordinates_df chr_lengths window_size
           = count_features_in_windows coordinates_df' chr_lengths' window_size'"
  using assms(1,2) count_features_same_dict[OF assms(3,4,5)] by simp

theorem count_features_deterministic_witness:
  "distinct (map fst test_chr_lengths)
   \<and> distinct (map fst [(''Chr7'', 15000::int), (''Chr6'', 20000)])
   \<and> set test_chr_lengths = set [(''Chr7'', 15000), (''Chr6'', 20000)]
   \<and> count_features_in_windows test_data test_chr_lengths 10000
       = count_features_in_windows test_data [(''Chr7'', 15000), (''Chr6'', 20000)] 10000"
proof -
  have h1: "distinct (map fst test_chr_lengths)" by (simp add: test_chr_lengths_def)
  have h2: "distinct (map fst [(''Chr7'', 15000::int), (''Chr6'', 20000)])" by simp
  have h3: "set test_chr_lengths = set [(''Chr7'', 15000), (''Chr6'', 20000)]"
    by (auto simp: test_chr_lengths_def)
  from h1 h2 h3 count_features_deterministic[OF refl refl h1 h2 h3, of test_data 10000]
  show ?thesis by (intro conjI)
qed

section \<open>The order of the output\<close>

lemma tiles_sorted:
  "tiles a ws b \<Longrightarrow> sorted_wrt (\<lambda>v w. window_start v < window_start w) ws"
proof (induction ws arbitrary: a)
  case Nil
  show ?case by simp
next
  case (Cons w ws)
  from Cons.prems have t: "tiles (window_end w) ws b" and lt: "window_start w < window_end w"
    by simp_all
  have "window_start w < window_start v" if "v \<in> set ws" for v
    using tiles_bounds[OF t that] lt by simp
  with Cons.IH[OF t] show ?case by simp
qed

lemma starts_ascending:
  assumes "0 < W"
  shows "sorted_wrt (\<lambda>v w. window_start v < window_start w) (chromosome_windows df c L W)"
proof (cases "0 \<le> L")
  case True
  from tiles_chromosome_windows[OF assms True] show ?thesis by (rule tiles_sorted)
next
  case False
  with assms have "L div W < 0" by (simp add: div_neg_pos_less0)
  then show ?thesis by (simp add: chromosome_windows_def Let_def)
qed

lemma chromosome_block_ordered:
  assumes "0 < W"
  shows "sorted_wrt window_before (chromosome_windows df c L W)"
proof -
  have "window_before v w"
    if "v \<in> set (chromosome_windows df c L W)" "w \<in> set (chromosome_windows df c L W)"
      "window_start v < window_start w" for v w
    using that by (simp add: window_before_def out_chromosome_chromosome_windows)
  with starts_ascending[OF assms, of df c L] show ?thesis
    by (rule sorted_wrt_mono_rel[rotated])
qed

lemma chromosomes_ascending:
  "sorted ks \<Longrightarrow>
   sorted (map out_chromosome (concat (map (\<lambda>k. chromosome_windows df k (f k) W) ks)))"
proof (induction ks)
  case Nil
  show ?case by simp
next
  case (Cons k ks)
  have blk: "sorted (map out_chromosome (chromosome_windows df k (f k) W))"
  proof -
    have "map out_chromosome (chromosome_windows df k (f k) W)
            = replicate (length (chromosome_windows df k (f k) W)) k"
      by (simp add: map_replicate_const[symmetric] out_chromosome_chromosome_windows
               cong: map_cong)
    then show ?thesis by (simp add: sorted_replicate)
  qed
  have "out_chromosome v \<le> out_chromosome w"
    if "v \<in> set (chromosome_windows df k (f k) W)"
      "w \<in> set (concat (map (\<lambda>k. chromosome_windows df k (f k) W) ks))" for v w
  proof -
    from that(2) obtain k' where "k' \<in> set ks" "w \<in> set (chromosome_windows df k' (f k') W)"
      by auto
    with that(1) Cons.prems show ?thesis
      by (auto simp: out_chromosome_chromosome_windows)
  qed
  with blk Cons show ?case by (auto simp: sorted_append)
qed

lemma output_ordered:
  "sorted ks \<Longrightarrow> distinct ks \<Longrightarrow> 0 < W \<Longrightarrow>
   sorted_wrt window_before (concat (map (\<lambda>k. chromosome_windows df k (f k) W) ks))"
proof (induction ks)
  case Nil
  show ?case by simp
next
  case (Cons k ks)
  have "window_before v w"
    if "v \<in> set (chromosome_windows df k (f k) W)"
      "w \<in> set (concat (map (\<lambda>k. chromosome_windows df k (f k) W) ks))" for v w
  proof -
    from that(2) obtain k' where k': "k' \<in> set ks" "w \<in> set (chromosome_windows df k' (f k') W)"
      by auto
    with Cons.prems have "k < k'" by (auto simp: less_le)
    with that(1) k' show ?thesis
      by (simp add: window_before_def out_chromosome_chromosome_windows)
  qed
  with Cons chromosome_block_ordered[of W df k "f k"] show ?case
    by (auto simp: sorted_wrt_append)
qed

text \<open>
  Claim C5, as amended: the order of window starts is claimed for a positive window size.
  For a well-formed dictionary and any other insertion order of the same entries, a
  non-zero window size always gives a result, and every result is the same for both
  orders and lists the chromosomes in ascending lexicographic order; for a positive
  window size the records are strictly ascending by chromosome and then window start, so
  within each chromosome the window starts ascend.
\<close>

theorem output_order:
  assumes "distinct (map fst chr_lengths)" and "mset chr_lengths' = mset chr_lengths"
  shows "(window_size \<noteq> 0 \<longrightarrow>
            (\<exists>out. count_features_in_windows coordinates_df chr_lengths window_size = Inr out))
     \<and> (\<forall>out. count_features_in_windows coordinates_df chr_lengths window_size = Inr out \<longrightarrow>
            count_features_in_windows coordinates_df chr_lengths' window_size = Inr out
            \<and> sorted (map out_chromosome out)
            \<and> (0 < window_size \<longrightarrow>
                  sorted_wrt window_before out
                  \<and> (\<forall>c. sorted_wrt (<) (map window_start (chr_results c out)))))"
proof (intro conjI allI impI)
  assume "window_size \<noteq> 0"
  then show "\<exists>out. count_features_in_windows coordinates_df chr_lengths window_size = Inr out"
    by (simp add: count_features_nonzero)
next
  fix out
  assume o: "count_features_in_windows coordinates_df chr_lengths window_size = Inr out"
  let ?ks = "sort (map fst chr_lengths)"
  let ?f = "\<lambda>k. the (map_of chr_lengths k)"
  have eq: "window_size \<noteq> 0 \<Longrightarrow>
      out = concat (map (\<lambda>k. chromosome_windows coordinates_df k (?f k) window_size) ?ks)"
    using o by (simp add: count_features_nonzero)
  have empty: "window_size = 0 \<Longrightarrow> out = []"
    using o by (simp add: count_features_zero split: if_splits)
  have "mset (map fst chr_lengths') = mset (map fst chr_lengths)"
    using assms(2) by (metis mset_map)
  then have d': "distinct (map fst chr_lengths')"
    using assms(1) by (metis mset_eq_imp_distinct_iff)
  have "set chr_lengths = set chr_lengths'"
    using assms(2) by (metis mset_eq_setD)
  from count_features_same_dict[OF assms(1) d' this] o
  show "count_features_in_windows coordinates_df chr_lengths' window_size = Inr out"
    by simp
  show "sorted (map out_chromosome out)"
  proof (cases "window_size = 0")
    case True
    with empty show ?thesis by simp
  next
    case False
    have "sorted ?ks" by simp
    then show ?thesis unfolding eq[OF False] by (rule chromosomes_ascending)
  qed
  assume pos: "0 < window_size"
  have "sorted ?ks" "distinct ?ks" using assms(1) by simp_all
  then have "sorted_wrt window_before
        (concat (map (\<lambda>k. chromosome_windows coordinates_df k (?f k) window_size) ?ks))"
    using pos by (rule output_ordered)
  with eq pos show ord: "sorted_wrt window_before out" by simp
  fix c
  have "sorted_wrt window_before (chr_results c out)"
    unfolding chr_results_def using ord by (rule sorted_wrt_filter)
  moreover have "window_start v < window_start w"
    if "v \<in> set (chr_results c out)" "w \<in> set (chr_results c out)" "window_before v w" for v w
    using that by (auto simp: chr_results_def window_before_def)
  ultimately have "sorted_wrt (\<lambda>v w. window_start v < window_start w) (chr_results c out)"
    by (rule sorted_wrt_mono_rel[rotated])
  then show "sorted_wrt (<) (map window_start (chr_results c out))"
    by (simp add: sorted_wrt_map)
qed

theorem output_order_witness:
  "distinct (map fst [(''Chr7'', 15000::int), (''Chr6'', 20000), (''Chr10'', 5000)])
   \<and> mset [(''Chr10'', 5000::int), (''Chr6'', 20000), (''Chr7'', 15000)]
       = mset [(''Chr7'', 15000), (''Chr6'', 20000), (''Chr10'', 5000)]
   \<and> 0 < (10000::int)
   \<and> count_features_in_windows test_data
        [(''Chr7'', 15000), (''Chr6'', 20000), (''Chr10'', 5000)] 10000
       = Inr [\<lparr>out_chromosome = ''Chr10'', window_start = 0, window_end = 5000,
                 feature_count = 0\<rparr>,
              \<lparr>out_chromosome = ''Chr6'', window_start = 0, window_end = 10000,
                 feature_count = 4\<rparr>,
              \<lparr>out_chromosome = ''Chr6'', window_start = 10000, window_end = 20000,
                 feature_count = 1\<rparr>,
              \<lparr>out_chromosome = ''Chr7'', window_start = 0, window_end = 10000,
                 feature_count = 1\<rparr>,
              \<lparr>out_chromosome = ''Chr7'', window_start = 10000, window_end = 15000,
                 feature_count = 1\<rparr>]
   \<and> count_features_in_windows test_data
        [(''Chr10'', 5000), (''Chr6'', 20000), (''Chr7'', 15000)] 10000
       = Inr [\<lparr>out_chromosome = ''Chr10'', window_start = 0, window_end = 5000,
                 feature_count = 0\<rparr>,
              \<lparr>out_chromosome = ''Chr6'', window_start = 0, window_end = 10000,
                 feature_count = 4\<rparr>,
              \<lparr>out_chromosome = ''Chr6'', window_start = 10000, window_end = 20000,
                 feature_count = 1\<rparr>,
              \<lparr>out_chromosome = ''Chr7'', window_start = 0, window_end = 10000,
                 feature_count = 1\<rparr>,
              \<lparr>out_chromosome = ''Chr7'', window_start = 10000, window_end = 15000,
                 feature_count = 1\<rparr>]
   \<and> sorted_wrt window_before
         [\<lparr>out_chromosome = ''Chr10'', window_start = 0, window_end = 5000,
                 feature_count = 0\<rparr>,
              \<lparr>out_chromosome = ''Chr6'', window_start = 0, window_end = 10000,
                 feature_count = 4\<rparr>,
              \<lparr>out_chromosome = ''Chr6'', window_start = 10000, window_end = 20000,
                 feature_count = 1\<rparr>,
              \<lparr>out_chromosome = ''Chr7'', window_start = 0, window_end = 10000,
                 feature_count = 1\<rparr>,
              \<lparr>out_chromosome = ''Chr7'', window_start = 10000, window_end = 15000,
                 feature_count = 1\<rparr>]"
proof -
  let ?cl = "[(''Chr7'', 15000::int), (''Chr6'', 20000), (''Chr10'', 5000)]"
  let ?cl' = "[(''Chr10'', 5000::int), (''Chr6'', 20000), (''Chr7'', 15000)]"
  let ?out = "[\<lparr>out_chromosome = ''Chr10'', window_start = 0, window_end = 5000,
                 feature_count = 0\<rparr>,
              \<lparr>out_chromosome = ''Chr6'', window_start = 0, window_end = 10000,
                 feature_count = 4\<rparr>,
              \<lparr>out_chromosome = ''Chr6'', window_start = 10000, window_end = 20000,
                 feature_count = 1\<rparr>,
              \<lparr>out_chromosome = ''Chr7'', window_start = 0, window_end = 10000,
                 feature_count = 1\<rparr>,
              \<lparr>out_chromosome = ''Chr7'', window_start = 10000, window_end = 15000,
                 feature_count = 1\<rparr>]"
  have h1: "distinct (map fst ?cl)" by simp
  have h2: "mset ?cl' = mset ?cl" by (simp add: add.commute add.left_commute)
  have h3: "0 < (10000::int)" by simp
  have e: "count_features_in_windows test_data ?cl 10000 = Inr ?out" by code_simp
  from output_order[OF h1 h2, of 10000 test_data]
  have "\<forall>out. count_features_in_windows test_data ?cl 10000 = Inr out \<longrightarrow>
            count_features_in_windows test_data ?cl' 10000 = Inr out
            \<and> sorted (map out_chromosome out)
            \<and> (0 < (10000::int) \<longrightarrow>
                  sorted_wrt window_before out
                  \<and> (\<forall>c. sorted_wrt (<) (map window_start (chr_results c out))))"
    by (rule conjunct2)
  then have "count_features_in_windows test_data ?cl 10000 = Inr ?out \<longrightarrow>
            count_features_in_windows test_data ?cl' 10000 = Inr ?out
            \<and> sorted (map out_chromosome ?out)
            \<and> (0 < (10000::int) \<longrightarrow>
                  sorted_wrt window_before ?out
                  \<and> (\<forall>c. sorted_wrt (<) (map window_start (chr_results c ?out))))"
    by (rule spec)
  from this e have r: "count_features_in_windows test_data ?cl' 10000 = Inr ?out
            \<and> sorted (map out_chromosome ?out)
            \<and> (0 < (10000::int) \<longrightarrow>
                  sorted_wrt window_before ?out
                  \<and> (\<forall>c. sorted_wrt (<) (map window_start (chr_results c ?out))))"
    by (rule mp)
  then have a: "count_features_in_windows test_data ?cl' 10000 = Inr ?out" by (rule conjunct1)
  from r have "0 < (10000::int) \<longrightarrow>
                  sorted_wrt window_before ?out
                  \<and> (\<forall>c. sorted_wrt (<) (map window_start (chr_results c ?out)))"
    by (elim conjE)
  from this h3 have "sorted_wrt window_before ?out
                  \<and> (\<forall>c. sorted_wrt (<) (map window_start (chr_results c ?out)))"
    by (rule mp)
  then have b: "sorted_wrt window_before ?out" by (rule conjunct1)
  from h1 h2 h3 e a b show ?thesis by (intro conjI)
qed

text \<open>
  Claim C5 as stated, for every input, fails for a negative window size: with length
  \<open>-20\<close> and window size \<open>-10\<close>, \<open>-20 // -10 = 2\<close>, and the two windows are
  emitted with starts \<open>0\<close> and then \<open>-10\<close>.
\<close>

theorem negative_window_size_descending_starts:
  "count_features_in_windows [] [(''Chr1'', - 20)] (- 10)
     = Inr [\<lparr>out_chromosome = ''Chr1'', window_start = 0, window_end = - 10,
               feature_count = 0\<rparr>,
            \<lparr>out_chromosome = ''Chr1'', window_start = - 10, window_end = - 20,
               feature_count = 0\<rparr>]
   \<and> \<not> sorted (map window_start
         [\<lparr>out_chromosome = ''Chr1'', window_start = 0, window_end = - 10,
               feature_count = 0\<rparr>,
            \<lparr>out_chromosome = ''Chr1'', window_start = - 10, window_end = - 20,
               feature_count = 0\<rparr>])"
  by code_simp

section \<open>A window size that is not positive\<close>

lemma negative_size_windows:
  assumes "W < 0" and "w \<in> set (chromosome_windows df c L W)"
  shows "feature_count w = 0 \<and> window_end w < window_start w"
proof -
  from assms(1) have "L mod W \<le> 0" by simp
  with assms(2) obtain i where w: "w = full_window (filter (\<lambda>r. chromosome r = c) df) c W (int i)"
    by (auto simp: chromosome_windows_def Let_def)
  have "(int i + 1) * W < int i * W" using assms(1) by (simp add: algebra_simps)
  then show ?thesis
    unfolding w by (simp add: full_window_def Let_def count_starts_def)
qed

lemma negative_size_positive_length:
  assumes "W < 0" and "0 < L"
  shows "chromosome_windows df c L W = []"
proof -
  from assms have "L div W < 0" by (simp add: neg_imp_zdiv_neg_iff)
  moreover from assms(1) have "L mod W \<le> 0" by simp
  ultimately show ?thesis by (simp add: chromosome_windows_def Let_def)
qed

text \<open>
  Claim C7, as amended: the function has no check of the window size. For a window size
  of zero it raises the \<open>ZeroDivisionError\<close> of the first chromosome's division when
  the dictionary has an entry, and returns the empty result when it has none. For a
  negative window size it raises nothing and returns a result (the model is a total
  function, so it never loops): every window in it is an empty interval with count 0,
  and none is emitted when all lengths are positive.
\<close>

theorem nonpositive_window_size:
  "(window_size = 0 \<and> chr_lengths \<noteq> [] \<longrightarrow>
      count_features_in_windows coordinates_df chr_lengths window_size = Inl ZeroDivisionError)
   \<and> (window_size = 0 \<and> chr_lengths = [] \<longrightarrow>
      count_features_in_windows coordinates_df chr_lengths window_size = Inr [])
   \<and> (window_size < 0 \<longrightarrow>
      (\<exists>out. count_features_in_windows coordinates_df chr_lengths window_size = Inr out
         \<and> (\<forall>w \<in> set out. feature_count w = 0 \<and> window_end w < window_start w)
         \<and> ((\<forall>(c, L) \<in> set chr_lengths. 0 < L) \<longrightarrow> out = [])))"
proof (intro conjI impI)
  assume "window_size = 0 \<and> chr_lengths \<noteq> []"
  then show "count_features_in_windows coordinates_df chr_lengths window_size
               = Inl ZeroDivisionError"
    by (simp add: count_features_zero)
next
  assume "window_size = 0 \<and> chr_lengths = []"
  then show "count_features_in_windows coordinates_df chr_lengths window_size = Inr []"
    by (simp add: count_features_zero)
next
  assume neg: "window_size < 0"
  then have nz: "window_size \<noteq> 0" by simp
  let ?f = "\<lambda>c. chromosome_windows coordinates_df c (the (map_of chr_lengths c)) window_size"
  let ?out = "concat (map ?f (sort (map fst chr_lengths)))"
  have o: "count_features_in_windows coordinates_df chr_lengths window_size = Inr ?out"
    using nz by (rule count_features_nonzero)
  have e: "\<forall>w \<in> set ?out. feature_count w = 0 \<and> window_end w < window_start w"
    using negative_size_windows[OF neg] by auto
  have p: "?out = []" if "\<forall>(c, L) \<in> set chr_lengths. 0 < L"
  proof -
    have "?f c = []" if "c \<in> set (sort (map fst chr_lengths))" for c
    proof -
      from that have "c \<in> fst ` set chr_lengths" by simp
      then obtain L where L: "map_of chr_lengths c = Some L"
        by (metis domD dom_map_of_conv_image_fst)
      then have "(c, L) \<in> set chr_lengths" by (rule map_of_SomeD)
      with \<open>\<forall>(c, L) \<in> set chr_lengths. 0 < L\<close> have "0 < L" by auto
      with neg L show ?thesis by (simp add: negative_size_positive_length)
    qed
    then show ?thesis by simp
  qed
  from o e p
  show "\<exists>out. count_features_in_windows coordinates_df chr_lengths window_size = Inr out
         \<and> (\<forall>w \<in> set out. feature_count w = 0 \<and> window_end w < window_start w)
         \<and> ((\<forall>(c, L) \<in> set chr_lengths. 0 < L) \<longrightarrow> out = [])"
    by blast
qed

theorem nonpositive_window_size_witness:
  "test_chr_lengths \<noteq> []
   \<and> count_features_in_windows test_data test_chr_lengths 0 = Inl ZeroDivisionError
   \<and> count_features_in_windows test_data [] 0 = Inr []
   \<and> (- 10000 :: int) < 0
   \<and> (\<exists>out. count_features_in_windows test_data test_chr_lengths (- 10000) = Inr out)"
proof -
  have h1: "test_chr_lengths \<noteq> []" by (simp add: test_chr_lengths_def)
  have h2: "(- 10000 :: int) < 0" by simp
  note t0 = nonpositive_window_size[of 0 test_chr_lengths test_data]
  note t1 = nonpositive_window_size[of 0 "[]" test_data]
  note t2 = nonpositive_window_size[of "- 10000" test_chr_lengths test_data]
  from t0 h1 have a: "count_features_in_windows test_data test_chr_lengths 0
                        = Inl ZeroDivisionError"
    by simp
  from t1 have b: "count_features_in_windows test_data [] 0 = Inr []" by simp
  from t2 h2
  have "\<exists>out. count_features_in_windows test_data test_chr_lengths (- 10000) = Inr out
         \<and> (\<forall>w \<in> set out. feature_count w = 0 \<and> window_end w < window_start w)
         \<and> ((\<forall>(c, L) \<in> set test_chr_lengths. 0 < L) \<longrightarrow> out = [])"
    by (elim conjE) (rule mp)
  then have c: "\<exists>out. count_features_in_windows test_data test_chr_lengths (- 10000) = Inr out"
    by (elim exE conjE) (rule exI)
  from h1 a b h2 c show ?thesis by (intro conjI)
qed

text \<open>
  Claim C7 as stated fails for a negative window size: on the self-test input with
  window size \<open>-10000\<close>, \<open>20000 // -10000 = -2\<close> with remainder \<open>0\<close> and
  \<open>15000 // -10000 = -2\<close> with remainder \<open>-5000\<close>, so no window is emitted and the
  empty result is returned without an error.
\<close>

theorem negative_window_size_returns_silently:
  "count_features_in_windows test_data test_chr_lengths (- 10000) = Inr []"
  by code_simp

end
